theory Spec2Isabelle
  imports Main
begin

section \<open>Frames, exceptions and the external collaborators\<close>

text \<open>
  The development embeds \<^verbatim>\<open>VidUtils.py\<close>: the continuous recorder
  \<^verbatim>\<open>KeyClipWriter\<close>, the bounded recorder \<^verbatim>\<open>ShortClipWriter\<close> and the capture
  decoupler \<^verbatim>\<open>VideoStream\<close>. Every method is a function from the object's state to a
  result that carries the state the object is left in, also when the method raises.
\<close>

datatype error = IndexError | AttributeError | TypeError | FileNotFoundError

datatype 's result = Ok 's | Raise error 's

fun result_state :: "'s result \<Rightarrow> 's" where
  "result_state (Ok s) = s"
| "result_state (Raise e s) = s"

fun returned_ok :: "'s result \<Rightarrow> bool" where
  "returned_ok (Ok s) = True"
| "returned_ok (Raise e s) = False"

text \<open>
  A frame is a numpy array: \<open>shape\<close> holds \<^verbatim>\<open>frame.shape[0]\<close> and
  \<^verbatim>\<open>frame.shape[1]\<close>, \<open>pixels\<close> stands for the content.
\<close>

record frame =
  shape :: "nat \<times> nat"
  pixels :: nat

text \<open>
  \<^verbatim>\<open>cv2.VideoWriter\<close> is the frame sink. It is not code of the repository; the model
  keeps what the recorders can observe of it: the arguments it was opened with, the frames
  passed to \<^verbatim>\<open>write\<close> while it was open, and whether \<^verbatim>\<open>release\<close> was called. A
  released writer ignores further frames.
\<close>

record VideoWriter =
  vw_path :: string
  vw_fourcc :: string
  vw_fps :: nat
  vw_size :: "nat \<times> nat"
  vw_isColor :: bool
  vw_written :: "frame list"
  vw_released :: bool

definition VideoWriter_open ::
  "string \<Rightarrow> string \<Rightarrow> nat \<Rightarrow> nat \<times> nat \<Rightarrow> bool \<Rightarrow> VideoWriter" where
  "VideoWriter_open path fourcc fps frameSize isColor =
     \<lparr>vw_path = path, vw_fourcc = fourcc, vw_fps = fps, vw_size = frameSize,
      vw_isColor = isColor, vw_written = [], vw_released = False\<rparr>"

definition VideoWriter_write :: "frame \<Rightarrow> VideoWriter \<Rightarrow> VideoWriter" where
  "VideoWriter_write f w =
     (if vw_released w then w else w\<lparr>vw_written := vw_written w @ [f]\<rparr>)"

definition VideoWriter_release :: "VideoWriter \<Rightarrow> VideoWriter" where
  "VideoWriter_release w = w\<lparr>vw_released := True\<rparr>"

text \<open>
  \<^verbatim>\<open>collections.deque(maxlen=n)\<close>, as a list whose head is index 0. An append on
  either side adds the item and, when the length then exceeds \<open>maxlen\<close>, discards one item
  from the opposite side.
\<close>

definition deque_appendleft :: "nat \<Rightarrow> 'a \<Rightarrow> 'a list \<Rightarrow> 'a list" where
  "deque_appendleft maxlen x d =
     (let d' = x # d in if length d' > maxlen then butlast d' else d')"

definition deque_append :: "nat \<Rightarrow> 'a \<Rightarrow> 'a list \<Rightarrow> 'a list" where
  "deque_append maxlen x d =
     (let d' = d @ [x] in if length d' > maxlen then tl d' else d')"

section \<open>KeyClipWriter\<close>

text \<open>
  A thread running \<^verbatim>\<open>KeyClipWriter.write\<close> is at one of three places of its loop:
  about to test \<^verbatim>\<open>self.recording\<close> (\<open>AtLoop\<close>), about to test
  \<^verbatim>\<open>self.Q.empty()\<close> and take a frame (\<open>AtPoll\<close>), or holding a frame it is about
  to hand to \<^verbatim>\<open>self.writer.write\<close> (\<open>AtWrite\<close>). It has returned (\<open>Finished\<close>) or
  died of an exception (\<open>Raised\<close>) otherwise. The threads spawned by \<^verbatim>\<open>start\<close> are
  kept in spawning order; \<^verbatim>\<open>self.thread\<close> is the last one, and the empty list is
  \<^verbatim>\<open>self.thread = None\<close>.
\<close>

datatype wthread = AtLoop | AtPoll | AtWrite frame | Finished | Raised error

fun thread_done :: "wthread \<Rightarrow> bool" where
  "thread_done Finished = True"
| "thread_done (Raised e) = True"
| "thread_done t = False"

text \<open>
  \<open>kcw_files\<close> is the set of paths present on disk: opening a writer creates its file,
  and \<^verbatim>\<open>os.remove\<close> deletes a file that is present and raises
  \<^verbatim>\<open>FileNotFoundError\<close> otherwise. \<open>kcw_timeout\<close> is the sleeping time of an idle
  writer thread; it changes nothing in the state.
\<close>

record KeyClipWriter =
  kcw_bufSize :: nat
  kcw_timeout :: nat
  kcw_frames :: "frame list"
  kcw_Q :: "frame list option"
  kcw_writer :: "VideoWriter option"
  kcw_threads :: "wthread list"
  kcw_recording :: bool
  kcw_outputPath :: "string option"
  kcw_isColor :: bool
  kcw_files :: "string set"

definition KeyClipWriter_init :: "nat \<Rightarrow> nat \<Rightarrow> KeyClipWriter" where
  "KeyClipWriter_init bufSize timeout =
     \<lparr>kcw_bufSize = bufSize, kcw_timeout = timeout, kcw_frames = [], kcw_Q = None,
      kcw_writer = None, kcw_threads = [], kcw_recording = False,
      kcw_outputPath = None, kcw_isColor = True, kcw_files = {}\<rparr>"

definition KeyClipWriter_update :: "frame \<Rightarrow> KeyClipWriter \<Rightarrow> KeyClipWriter result" where
  "KeyClipWriter_update f s =
     (let s1 = s\<lparr>kcw_frames := deque_appendleft (kcw_bufSize s) f (kcw_frames s)\<rparr> in
      if kcw_recording s1 then
        (case kcw_Q s1 of
           None \<Rightarrow> Raise AttributeError s1
         | Some q \<Rightarrow> Ok (s1\<lparr>kcw_Q := Some (q @ [f])\<rparr>))
      else Ok s1)"

text \<open>
  The loop of \<^verbatim>\<open>start\<close>: \<^verbatim>\<open>for i in range(len(self.frames), 0, -1):
  self.Q.put(self.frames[i - 1])\<close>.
\<close>

fun put_frames :: "nat \<Rightarrow> frame list \<Rightarrow> frame list \<Rightarrow> frame list" where
  "put_frames 0 fs q = q"
| "put_frames (Suc i) fs q = put_frames i fs (q @ [fs ! i])"

definition KeyClipWriter_start ::
  "string \<Rightarrow> string \<Rightarrow> nat \<Rightarrow> bool \<Rightarrow> KeyClipWriter \<Rightarrow> KeyClipWriter result" where
  "KeyClipWriter_start outputPath fourcc fps isColor s =
     (let s1 = s\<lparr>kcw_recording := True, kcw_outputPath := Some outputPath\<rparr> in
      case kcw_frames s1 of
        [] \<Rightarrow> Raise IndexError s1
      | f0 # _ \<Rightarrow>
          let s2 = s1\<lparr>kcw_writer :=
                        Some (VideoWriter_open outputPath fourcc fps
                                (snd (shape f0), fst (shape f0)) isColor),
                      kcw_files := insert outputPath (kcw_files s1)\<rparr>;
              s3 = s2\<lparr>kcw_Q := Some (put_frames (length (kcw_frames s2)) (kcw_frames s2) [])\<rparr>
          in Ok (s3\<lparr>kcw_threads := kcw_threads s3 @ [AtLoop]\<rparr>))"

text \<open>
  One step of thread \<open>i\<close> running \<^verbatim>\<open>write\<close>. An empty queue at \<open>AtPoll\<close> is the
  \<^verbatim>\<open>time.sleep(self.timeout)\<close> branch. The emptiness test and the \<^verbatim>\<open>get\<close> that
  follows are one step.
\<close>

definition KeyClipWriter_write_step :: "nat \<Rightarrow> KeyClipWriter \<Rightarrow> KeyClipWriter" where
  "KeyClipWriter_write_step i s =
     (if length (kcw_threads s) \<le> i then s
      else case kcw_threads s ! i of
        AtLoop \<Rightarrow>
          if \<not> kcw_recording s then s\<lparr>kcw_threads := (kcw_threads s)[i := Finished]\<rparr>
          else s\<lparr>kcw_threads := (kcw_threads s)[i := AtPoll]\<rparr>
      | AtPoll \<Rightarrow>
          (case kcw_Q s of
             None \<Rightarrow> s\<lparr>kcw_threads := (kcw_threads s)[i := Raised AttributeError]\<rparr>
           | Some [] \<Rightarrow> s\<lparr>kcw_threads := (kcw_threads s)[i := AtLoop]\<rparr>
           | Some (f # q) \<Rightarrow>
               s\<lparr>kcw_Q := Some q, kcw_threads := (kcw_threads s)[i := AtWrite f]\<rparr>)
      | AtWrite f \<Rightarrow>
          (case kcw_writer s of
             None \<Rightarrow> s\<lparr>kcw_threads := (kcw_threads s)[i := Raised AttributeError]\<rparr>
           | Some w \<Rightarrow>
               s\<lparr>kcw_writer := Some (VideoWriter_write f w),
                 kcw_threads := (kcw_threads s)[i := AtLoop]\<rparr>)
      | Finished \<Rightarrow> s
      | Raised e \<Rightarrow> s)"

text \<open>
  \<^verbatim>\<open>self.thread.join()\<close>: the caller is blocked while the joined thread runs until it
  has ended. A thread that never ends makes the result \<open>None\<close>.
\<close>

partial_function (option) KeyClipWriter_join :: "KeyClipWriter \<Rightarrow> KeyClipWriter option" where
  "KeyClipWriter_join s =
     (if thread_done (last (kcw_threads s)) then Some s
      else KeyClipWriter_join (KeyClipWriter_write_step (length (kcw_threads s) - 1) s))"

declare KeyClipWriter_join.simps [code]

text \<open>The loop of \<^verbatim>\<open>flush\<close>, over the frames still in the queue.\<close>

fun flush_frames :: "frame list \<Rightarrow> VideoWriter \<Rightarrow> VideoWriter" where
  "flush_frames [] w = w"
| "flush_frames (f # q) w = flush_frames q (VideoWriter_write f w)"

definition KeyClipWriter_flush :: "KeyClipWriter \<Rightarrow> KeyClipWriter result" where
  "KeyClipWriter_flush s =
     (case kcw_Q s of
        None \<Rightarrow> Raise AttributeError s
      | Some [] \<Rightarrow> Ok s
      | Some (f # q) \<Rightarrow>
          (case kcw_writer s of
             None \<Rightarrow> Raise AttributeError (s\<lparr>kcw_Q := Some q\<rparr>)
           | Some w \<Rightarrow> Ok (s\<lparr>kcw_Q := Some [], kcw_writer := Some (flush_frames (f # q) w)\<rparr>)))"

definition KeyClipWriter_finish :: "KeyClipWriter \<Rightarrow> KeyClipWriter result option" where
  "KeyClipWriter_finish s =
     (let s1 = s\<lparr>kcw_recording := False\<rparr> in
      if kcw_threads s1 = [] then Some (Raise AttributeError s1)
      else case KeyClipWriter_join s1 of
        None \<Rightarrow> None
      | Some s2 \<Rightarrow>
          (case KeyClipWriter_flush s2 of
             Raise e s3 \<Rightarrow> Some (Raise e s3)
           | Ok s3 \<Rightarrow>
               (case kcw_writer s3 of
                  None \<Rightarrow> Some (Raise AttributeError s3)
                | Some w \<Rightarrow> Some (Ok (s3\<lparr>kcw_writer := Some (VideoWriter_release w)\<rparr>)))))"

definition KeyClipWriter_terminate :: "KeyClipWriter \<Rightarrow> KeyClipWriter result option" where
  "KeyClipWriter_terminate s =
     (let s1 = s\<lparr>kcw_recording := False\<rparr> in
      if kcw_threads s1 = [] then Some (Raise AttributeError s1)
      else case KeyClipWriter_join s1 of
        None \<Rightarrow> None
      | Some s2 \<Rightarrow>
          (case kcw_writer s2 of
             None \<Rightarrow> Some (Raise AttributeError s2)
           | Some w \<Rightarrow>
               let s3 = s2\<lparr>kcw_writer := Some (VideoWriter_release w)\<rparr> in
               (case kcw_outputPath s3 of
                  None \<Rightarrow> Some (Raise TypeError s3)
                | Some p \<Rightarrow>
                    if p \<in> kcw_files s3 then Some (Ok (s3\<lparr>kcw_files := kcw_files s3 - {p}\<rparr>))
                    else Some (Raise FileNotFoundError s3))))"

text \<open>
  What happens to a recorder between two calls of the caller's thread: the caller passes a
  frame to \<^verbatim>\<open>update\<close>, or writer thread \<open>i\<close> takes a step. A run stops at the first
  exception that reaches the caller.
\<close>

datatype kcw_event = Update frame | WriterStep nat

fun kcw_run :: "kcw_event list \<Rightarrow> KeyClipWriter \<Rightarrow> KeyClipWriter result" where
  "kcw_run [] s = Ok s"
| "kcw_run (Update f # es) s =
     (case KeyClipWriter_update f s of
        Ok s' \<Rightarrow> kcw_run es s'
      | Raise e s' \<Rightarrow> Raise e s')"
| "kcw_run (WriterStep i # es) s = kcw_run es (KeyClipWriter_write_step i s)"

fun updated_frames :: "kcw_event list \<Rightarrow> frame list" where
  "updated_frames [] = []"
| "updated_frames (Update f # es) = f # updated_frames es"
| "updated_frames (WriterStep i # es) = updated_frames es"

text \<open>
  An armed session: the recorder is recording, its last thread is alive, every earlier
  thread has ended, the sink opened for path \<open>p\<close> is still open, and the frames written,
  the frame the thread holds and the frames in the queue are together the sequence
  \<open>seen\<close>.
\<close>

fun in_flight :: "wthread \<Rightarrow> frame list" where
  "in_flight (AtWrite f) = [f]"
| "in_flight t = []"

definition armed :: "string \<Rightarrow> wthread list \<Rightarrow> frame list \<Rightarrow> KeyClipWriter \<Rightarrow> bool" where
  "armed p ts seen s \<longleftrightarrow>
     kcw_recording s \<and> kcw_outputPath s = Some p \<and> p \<in> kcw_files s \<and>
     list_all thread_done ts \<and>
     (\<exists>t q w. kcw_threads s = ts @ [t] \<and> \<not> thread_done t \<and>
        kcw_Q s = Some q \<and> kcw_writer s = Some w \<and> \<not> vw_released w \<and> vw_path w = p \<and>
        vw_written w @ in_flight t @ q = seen)"

section \<open>ShortClipWriter\<close>

text \<open>
  The threads of \<^verbatim>\<open>self.threads\<close> each run \<^verbatim>\<open>write\<close> once. \<^verbatim>\<open>write\<close> keeps its
  writer in a local variable, so the sinks it opened are recorded in \<open>scw_sinks\<close>, in
  opening order.
\<close>

datatype cthread = Spawned | Completed | Died error

record ShortClipWriter =
  scw_bufSize :: nat
  scw_rec_max_frames :: int
  scw_frames :: "frame list"
  scw_Q :: "frame list option"
  scw_writer :: "VideoWriter option"
  scw_threads :: "cthread list"
  scw_recording :: bool
  scw_outputPath :: "string option"
  scw_toolong :: bool
  scw_fourcc :: "string option"
  scw_fps :: nat
  scw_is_color :: bool
  scw_sinks :: "VideoWriter list"

definition ShortClipWriter_init :: "nat \<Rightarrow> int \<Rightarrow> ShortClipWriter" where
  "ShortClipWriter_init bufSize max_frames =
     \<lparr>scw_bufSize = bufSize, scw_rec_max_frames = max_frames, scw_frames = [],
      scw_Q = None, scw_writer = None, scw_threads = [], scw_recording = False,
      scw_outputPath = None, scw_toolong = False, scw_fourcc = None, scw_fps = 30,
      scw_is_color = True, scw_sinks = []\<rparr>"

definition ShortClipWriter_update :: "frame \<Rightarrow> ShortClipWriter \<Rightarrow> ShortClipWriter result" where
  "ShortClipWriter_update f s =
     (let s1 = s\<lparr>scw_frames := deque_append (scw_bufSize s) f (scw_frames s)\<rparr> in
      if scw_recording s1 then
        (case scw_Q s1 of
           None \<Rightarrow> Raise TypeError s1
         | Some q \<Rightarrow>
             if int (length q) > scw_rec_max_frames s1 then Ok (s1\<lparr>scw_toolong := True\<rparr>)
             else Ok (s1\<lparr>scw_Q := Some (q @ [f])\<rparr>))
      else Ok s1)"

definition ShortClipWriter_start ::
  "string \<Rightarrow> string \<Rightarrow> nat \<Rightarrow> bool \<Rightarrow> ShortClipWriter \<Rightarrow> ShortClipWriter" where
  "ShortClipWriter_start output_path fourcc fps is_color s =
     (let s1 = s\<lparr>scw_recording := True, scw_toolong := False,
                 scw_outputPath := Some output_path, scw_fourcc := Some fourcc,
                 scw_fps := fps, scw_is_color := is_color\<rparr>;
          s2 = s1\<lparr>scw_Q := Some []\<rparr>
      in s2\<lparr>scw_Q := Some ([] @ scw_frames s2)\<rparr>)"

text \<open>The loop of \<^verbatim>\<open>write\<close>: \<^verbatim>\<open>popleft\<close> and write until the copy is empty.\<close>

fun write_frames :: "frame list \<Rightarrow> VideoWriter \<Rightarrow> VideoWriter" where
  "write_frames [] w = w"
| "write_frames (f # framelist) w = write_frames framelist (VideoWriter_write f w)"

text \<open>
  The arguments of the \<^verbatim>\<open>cv2.VideoWriter\<close> call are evaluated from left to right, so
  \<^verbatim>\<open>framelist[0]\<close> on an empty copy raises before the writer is constructed.
\<close>

definition ShortClipWriter_write :: "ShortClipWriter \<Rightarrow> ShortClipWriter result" where
  "ShortClipWriter_write s =
     (case scw_Q s of
        None \<Rightarrow> Raise AttributeError s
      | Some framelist \<Rightarrow>
          (case framelist of
             [] \<Rightarrow> Raise IndexError s
           | f0 # _ \<Rightarrow>
               (case (scw_outputPath s, scw_fourcc s) of
                  (Some p, Some c) \<Rightarrow>
                    let writer = VideoWriter_open p c (scw_fps s)
                                   (snd (shape f0), fst (shape f0)) (scw_is_color s);
                        writer' = write_frames framelist writer
                    in Ok (s\<lparr>scw_sinks := scw_sinks s @ [VideoWriter_release writer']\<rparr>)
                | _ \<Rightarrow> Raise TypeError s)))"

definition ShortClipWriter_finish :: "ShortClipWriter \<Rightarrow> ShortClipWriter" where
  "ShortClipWriter_finish s =
     (let s1 = s\<lparr>scw_recording := False\<rparr> in
      if \<not> scw_toolong s1 then s1\<lparr>scw_threads := scw_threads s1 @ [Spawned]\<rparr>
      else s1)"

text \<open>
  Thread \<open>i\<close> of \<^verbatim>\<open>self.threads\<close> runs its \<^verbatim>\<open>write\<close>. An exception ends the thread
  and reaches no caller.
\<close>

definition ShortClipWriter_run_thread :: "nat \<Rightarrow> ShortClipWriter \<Rightarrow> ShortClipWriter" where
  "ShortClipWriter_run_thread i s =
     (if i < length (scw_threads s) \<and> scw_threads s ! i = Spawned then
        (case ShortClipWriter_write s of
           Ok s' \<Rightarrow> s'\<lparr>scw_threads := (scw_threads s')[i := Completed]\<rparr>
         | Raise e s' \<Rightarrow> s'\<lparr>scw_threads := (scw_threads s')[i := Died e]\<rparr>)
      else s)"

datatype scw_call = CUpdate frame | CStart string string nat bool | CFinish | CThread nat

fun scw_run :: "scw_call list \<Rightarrow> ShortClipWriter \<Rightarrow> ShortClipWriter result" where
  "scw_run [] s = Ok s"
| "scw_run (CUpdate f # cs) s =
     (case ShortClipWriter_update f s of
        Ok s' \<Rightarrow> scw_run cs s'
      | Raise e s' \<Rightarrow> Raise e s')"
| "scw_run (CStart p c r col # cs) s = scw_run cs (ShortClipWriter_start p c r col s)"
| "scw_run (CFinish # cs) s = scw_run cs (ShortClipWriter_finish s)"
| "scw_run (CThread i # cs) s = scw_run cs (ShortClipWriter_run_thread i s)"

section \<open>VideoStream\<close>

text \<open>
  The capture source \<^verbatim>\<open>cv2.VideoCapture\<close> is a function \<open>cam\<close>: its \<open>n\<close>-th
  \<^verbatim>\<open>read()\<close> returns \<open>cam n\<close>, the flag and the frame (\<open>None\<close> when no frame was
  grabbed). \<open>vs_stream\<close> counts the reads made so far. A thread running
  \<^verbatim>\<open>VideoStream.update\<close> is about to test \<^verbatim>\<open>self.stopped\<close> (\<open>CapLoop\<close>) or about to
  read the source and put the frame in the queue (\<open>CapRead\<close>), or has returned.
\<close>

datatype uthread = CapLoop | CapRead | CapFinished

record VideoStream =
  vs_stream :: nat
  vs_grabbed :: bool
  vs_frame :: "frame option"
  vs_stopped :: bool
  vs_Q :: "frame option list"
  vs_threads :: "uthread list"

definition VideoStream_init :: "(nat \<Rightarrow> bool \<times> frame option) \<Rightarrow> VideoStream" where
  "VideoStream_init cam =
     \<lparr>vs_stream = Suc 0, vs_grabbed = fst (cam 0), vs_frame = snd (cam 0),
      vs_stopped = False, vs_Q = [], vs_threads = []\<rparr>"

definition VideoStream_start :: "VideoStream \<Rightarrow> VideoStream" where
  "VideoStream_start s = s\<lparr>vs_threads := vs_threads s @ [CapLoop]\<rparr>"

definition VideoStream_update_step ::
  "(nat \<Rightarrow> bool \<times> frame option) \<Rightarrow> nat \<Rightarrow> VideoStream \<Rightarrow> VideoStream" where
  "VideoStream_update_step cam i s =
     (if length (vs_threads s) \<le> i then s
      else case vs_threads s ! i of
        CapLoop \<Rightarrow>
          if vs_stopped s then s\<lparr>vs_threads := (vs_threads s)[i := CapFinished]\<rparr>
          else s\<lparr>vs_threads := (vs_threads s)[i := CapRead]\<rparr>
      | CapRead \<Rightarrow>
          s\<lparr>vs_stream := Suc (vs_stream s),
            vs_Q := vs_Q s @ [snd (cam (vs_stream s))],
            vs_threads := (vs_threads s)[i := CapLoop]\<rparr>
      | CapFinished \<Rightarrow> s)"

text \<open>
  One turn of the loop of \<^verbatim>\<open>read\<close>: with a frame in the queue the call returns it,
  otherwise the loop goes round again.
\<close>

definition VideoStream_read_step :: "VideoStream \<Rightarrow> frame option option \<times> VideoStream" where
  "VideoStream_read_step s =
     (case vs_Q s of
        [] \<Rightarrow> (None, s)
      | v # q \<Rightarrow> (Some v, s\<lparr>vs_Q := q\<rparr>))"

definition VideoStream_stop :: "VideoStream \<Rightarrow> VideoStream" where
  "VideoStream_stop s = s\<lparr>vs_stopped := True\<rparr>"

datatype vs_event = Capture nat | ReadTurn | Stop

text \<open>A run returns the values that the calls of \<^verbatim>\<open>read\<close> returned, in order.\<close>

fun vs_run ::
  "(nat \<Rightarrow> bool \<times> frame option) \<Rightarrow> vs_event list \<Rightarrow> VideoStream
     \<Rightarrow> frame option list \<times> VideoStream" where
  "vs_run cam [] s = ([], s)"
| "vs_run cam (Capture i # es) s = vs_run cam es (VideoStream_update_step cam i s)"
| "vs_run cam (ReadTurn # es) s =
     (case VideoStream_read_step s of
        (None, s') \<Rightarrow> vs_run cam es s'
      | (Some v, s') \<Rightarrow> (case vs_run cam es s' of (vs, s'') \<Rightarrow> (v # vs, s'')))"
| "vs_run cam (Stop # es) s = vs_run cam es (VideoStream_stop s)"

section \<open>Example inputs and the invariant of the bounded recorder\<close>

text \<open>Frames of 480 rows and 640 columns, told apart by their content.\<close>

definition fr :: "nat \<Rightarrow> frame" where
  "fr n = \<lparr>shape = (480, 640), pixels = n\<rparr>"

text \<open>
  A fresh recorder of capacity 2 that was given \<open>fr 1\<close>, started, and given \<open>fr 2\<close>, at
  the moment its writer thread has passed the test of \<^verbatim>\<open>self.recording\<close>.
\<close>

definition armed_example :: KeyClipWriter where
  "armed_example =
     result_state (kcw_run [Update (fr 2), WriterStep 0]
       (result_state (KeyClipWriter_start ''clip.avi'' ''MJPG'' 30 True
          (result_state (kcw_run [Update (fr 1)] (KeyClipWriter_init 2 1))))))"

text \<open>
  The scenario of the bounded recorder: ceiling 4, pre-roll \<open>fr 1\<close> and \<open>fr 2\<close>, three
  updates, \<^verbatim>\<open>finish\<close>, and the run of the thread that \<^verbatim>\<open>finish\<close> spawned.
\<close>

definition short_clip_scenario :: "ShortClipWriter result" where
  "short_clip_scenario =
     scw_run [CUpdate (fr 1), CUpdate (fr 2), CStart ''clip.avi'' ''MJPG'' 30 True,
              CUpdate (fr 3), CUpdate (fr 4), CUpdate (fr 5), CFinish, CThread 0]
       (ShortClipWriter_init 60 4)"

text \<open>
  What holds of a bounded recorder after any calls: the history is within its capacity; a
  recorder that was never started has no pending sequence, is not recording and is not
  flagged; a pending sequence is no longer than the larger of the ceiling plus one and the
  capacity, and is longer than the ceiling when the recorder is flagged.
\<close>

definition scw_inv :: "ShortClipWriter \<Rightarrow> bool" where
  "scw_inv s \<longleftrightarrow>
     length (scw_frames s) \<le> scw_bufSize s \<and>
     (case scw_Q s of
        None \<Rightarrow> \<not> scw_recording s \<and> \<not> scw_toolong s
      | Some q \<Rightarrow>
          int (length q) \<le> max (scw_rec_max_frames s + 1) (int (scw_bufSize s)) \<and>
          (if scw_toolong s then int (length q) > scw_rec_max_frames s else True))"

text \<open>
  Two capture sources: one that always delivers, its \<open>n\<close>-th frame being \<open>fr n\<close>, and
  one whose second read fails.
\<close>

definition camera :: "nat \<Rightarrow> bool \<times> frame option" where
  "camera n = (True, Some (fr n))"

definition flaky_camera :: "nat \<Rightarrow> bool \<times> frame option" where
  "flaky_camera n = (if n = 1 then (False, None) else (True, Some (fr n)))"

section \<open>The rolling history\<close>

text \<open>
  On a deque within its bound, an append keeps the newest \<open>maxlen\<close> items.
\<close>

lemma deque_appendleft_take:
  "length d \<le> C \<Longrightarrow> deque_appendleft C x d = take C (x # d)"
  by (cases "length d = C") (auto simp: deque_appendleft_def Let_def butlast_conv_take)

lemma deque_append_take:
  "length d \<le> C \<Longrightarrow> deque_append C x d = rev (take C (x # rev d))"
proof (cases "length d = C")
  case True
  then have "rev (take C (x # rev d)) = rev (butlast (x # rev d))"
    by (simp add: butlast_conv_take)
  also have "\<dots> = rev (butlast (rev (d @ [x])))"
    by simp
  also have "\<dots> = tl (d @ [x])"
    by (simp only: butlast_rev rev_rev_ident)
  finally show ?thesis using True by (simp add: deque_append_def Let_def)
next
  case False
  assume "length d \<le> C"
  with False show ?thesis by (simp add: deque_append_def Let_def)
qed

lemma kcw_update_push:
  assumes "length (kcw_frames s) \<le> kcw_bufSize s" and "kcw_recording s \<longrightarrow> kcw_Q s \<noteq> None"
  shows "\<exists>s1. KeyClipWriter_update x s = Ok s1
           \<and> kcw_frames s1 = take (kcw_bufSize s) (x # kcw_frames s)
           \<and> kcw_bufSize s1 = kcw_bufSize s
           \<and> (kcw_recording s1 \<longrightarrow> kcw_Q s1 \<noteq> None)"
proof (cases "kcw_recording s")
  case False
  with assms(1) show ?thesis
    by (simp add: KeyClipWriter_update_def deque_appendleft_take)
next
  case True
  with assms(2) obtain q where "kcw_Q s = Some q" by auto
  with True assms(1) show ?thesis
    by (simp add: KeyClipWriter_update_def deque_appendleft_take)
qed

lemma kcw_push_run:
  assumes "length (kcw_frames s) \<le> kcw_bufSize s" and "kcw_recording s \<longrightarrow> kcw_Q s \<noteq> None"
  shows "\<exists>s'. kcw_run (map Update xs) s = Ok s'
           \<and> kcw_frames s' = take (kcw_bufSize s) (rev xs @ kcw_frames s)"
  using assms
proof (induction xs arbitrary: s)
  case Nil
  then show ?case by simp
next
  case (Cons x xs)
  from kcw_update_push [OF Cons.prems, of x] obtain s1 where
    s1: "KeyClipWriter_update x s = Ok s1"
    "kcw_frames s1 = take (kcw_bufSize s) (x # kcw_frames s)"
    "kcw_bufSize s1 = kcw_bufSize s" "kcw_recording s1 \<longrightarrow> kcw_Q s1 \<noteq> None"
    by blast
  have "length (kcw_frames s1) \<le> kcw_bufSize s1"
    by (simp add: s1(2,3))
  from Cons.IH [OF this s1(4)] obtain s' where
    s': "kcw_run (map Update xs) s1 = Ok s'"
    "kcw_frames s' = take (kcw_bufSize s1) (rev xs @ kcw_frames s1)"
    by blast
  have "take (kcw_bufSize s) (rev xs @ take (kcw_bufSize s) (x # kcw_frames s))
          = take (kcw_bufSize s) (rev xs @ x # kcw_frames s)"
    by (simp add: min_def)
  then have "kcw_frames s' = take (kcw_bufSize s) (rev (x # xs) @ kcw_frames s)"
    by (simp add: s'(2) s1(2,3))
  with s'(1) s1(1) show ?case by simp
qed

lemma scw_update_push:
  assumes "length (scw_frames s) \<le> scw_bufSize s" and "scw_recording s \<longrightarrow> scw_Q s \<noteq> None"
  shows "\<exists>s1. ShortClipWriter_update x s = Ok s1
           \<and> scw_frames s1 = rev (take (scw_bufSize s) (x # rev (scw_frames s)))
           \<and> scw_bufSize s1 = scw_bufSize s
           \<and> (scw_recording s1 \<longrightarrow> scw_Q s1 \<noteq> None)"
proof (cases "scw_recording s")
  case False
  with assms(1) show ?thesis
    by (simp add: ShortClipWriter_update_def deque_append_take)
next
  case True
  with assms(2) obtain q where "scw_Q s = Some q" by auto
  with True assms(1) show ?thesis
    by (simp add: ShortClipWriter_update_def deque_append_take Let_def)
qed

lemma scw_push_run:
  assumes "length (scw_frames s) \<le> scw_bufSize s" and "scw_recording s \<longrightarrow> scw_Q s \<noteq> None"
  shows "\<exists>s'. scw_run (map CUpdate xs) s = Ok s'
           \<and> scw_frames s' = rev (take (scw_bufSize s) (rev xs @ rev (scw_frames s)))"
  using assms
proof (induction xs arbitrary: s)
  case Nil
  then show ?case by simp
next
  case (Cons x xs)
  from scw_update_push [OF Cons.prems, of x] obtain s1 where
    s1: "ShortClipWriter_update x s = Ok s1"
    "scw_frames s1 = rev (take (scw_bufSize s) (x # rev (scw_frames s)))"
    "scw_bufSize s1 = scw_bufSize s" "scw_recording s1 \<longrightarrow> scw_Q s1 \<noteq> None"
    by blast
  have "length (scw_frames s1) \<le> scw_bufSize s1"
    by (simp add: s1(2,3))
  from Cons.IH [OF this s1(4)] obtain s' where
    s': "scw_run (map CUpdate xs) s1 = Ok s'"
    "scw_frames s' = rev (take (scw_bufSize s1) (rev xs @ rev (scw_frames s1)))"
    by blast
  have "take (scw_bufSize s) (rev xs @ take (scw_bufSize s) (x # rev (scw_frames s)))
          = take (scw_bufSize s) (rev xs @ x # rev (scw_frames s))"
    by (simp add: min_def)
  then have "scw_frames s' = rev (take (scw_bufSize s) (rev (x # xs) @ rev (scw_frames s)))"
    by (simp add: s'(2) s1(2,3))
  with s'(1) s1(1) show ?case by simp
qed

lemma last_frames: "length xs = C + k \<Longrightarrow> rev (take C (rev xs)) = drop k xs"
  by (simp add: rev_take)

text \<open>
  Claim C3. Take a recorder of capacity \<open>C\<close> in any state its methods can leave it in:
  the history within its capacity, and a queue in place whenever it is recording. Pushing
  \<open>C + k\<close> frames, one \<^verbatim>\<open>update\<close> at a time, raises nothing and leaves exactly the last
  \<open>C\<close> frames pushed in the rolling history, and after every prefix of the pushes the
  history holds at most \<open>C\<close> frames. This holds for both recorders, recording or not.
  \<^verbatim>\<open>ShortClipWriter\<close> appends on the right, so its deque reads in arrival order from
  index 0; \<^verbatim>\<open>KeyClipWriter\<close> appends on the left, so its deque holds the same frames
  with the newest at index 0, and read from the last index down, as \<^verbatim>\<open>start\<close> does, it
  is in arrival order.
\<close>

theorem rolling_history_keeps_last_frames:
  assumes "length xs = C + k"
    and "kcw_bufSize a = C" and "length (kcw_frames a) \<le> C"
    and "kcw_recording a \<longrightarrow> kcw_Q a \<noteq> None"
    and "scw_bufSize b = C" and "length (scw_frames b) \<le> C"
    and "scw_recording b \<longrightarrow> scw_Q b \<noteq> None"
  shows "(\<exists>a'. kcw_run (map Update xs) a = Ok a' \<and> rev (kcw_frames a') = drop k xs)
       \<and> (\<exists>b'. scw_run (map CUpdate xs) b = Ok b' \<and> scw_frames b' = drop k xs)
       \<and> (\<forall>n \<le> C + k.
             length (kcw_frames (result_state (kcw_run (map Update (take n xs)) a))) \<le> C
           \<and> length (scw_frames (result_state (scw_run (map CUpdate (take n xs)) b))) \<le> C)"
proof -
  have ka: "length (kcw_frames a) \<le> kcw_bufSize a"
    and sb: "length (scw_frames b) \<le> scw_bufSize b"
    using assms by simp_all
  have long: "take C (rev xs @ ys) = take C (rev xs)" for ys :: "frame list"
    using assms(1) by simp
  from kcw_push_run [OF ka assms(4), of xs] obtain a' where
    a': "kcw_run (map Update xs) a = Ok a'"
        "kcw_frames a' = take (kcw_bufSize a) (rev xs @ kcw_frames a)"
    by blast
  from scw_push_run [OF sb assms(7), of xs] obtain b' where
    b': "scw_run (map CUpdate xs) b = Ok b'"
        "scw_frames b' = rev (take (scw_bufSize b) (rev xs @ rev (scw_frames b)))"
    by blast
  have "kcw_frames a' = take C (rev xs)" "scw_frames b' = rev (take C (rev xs))"
    unfolding a'(2) b'(2) assms(2) assms(5) long by simp_all
  then have fin: "rev (kcw_frames a') = drop k xs" "scw_frames b' = drop k xs"
    using last_frames [OF assms(1)] by simp_all
  have ki: "length (kcw_frames (result_state (kcw_run (map Update ys) a))) \<le> C" for ys
  proof -
    from kcw_push_run [OF ka assms(4), of ys] obtain s' where
      "kcw_run (map Update ys) a = Ok s'"
      "kcw_frames s' = take (kcw_bufSize a) (rev ys @ kcw_frames a)" by blast
    then show ?thesis by (simp add: assms(2))
  qed
  have si: "length (scw_frames (result_state (scw_run (map CUpdate ys) b))) \<le> C" for ys
  proof -
    from scw_push_run [OF sb assms(7), of ys] obtain s' where
      "scw_run (map CUpdate ys) b = Ok s'"
      "scw_frames s' = rev (take (scw_bufSize b) (rev ys @ rev (scw_frames b)))" by blast
    then show ?thesis by (simp add: assms(5))
  qed
  show ?thesis using a'(1) b'(1) fin ki si by simp
qed

theorem rolling_history_keeps_last_frames_witness:
  "length [fr 1, fr 2, fr 3] = 2 + 1
   \<and> kcw_bufSize (KeyClipWriter_init 2 1) = 2
   \<and> length (kcw_frames (KeyClipWriter_init 2 1)) \<le> 2
   \<and> \<not> kcw_recording (KeyClipWriter_init 2 1)
   \<and> scw_bufSize (ShortClipWriter_init 2 4) = 2
   \<and> length (scw_frames (ShortClipWriter_init 2 4)) \<le> 2
   \<and> \<not> scw_recording (ShortClipWriter_init 2 4)
   \<and> (\<exists>a'. kcw_run (map Update [fr 1, fr 2, fr 3]) (KeyClipWriter_init 2 1) = Ok a'
          \<and> rev (kcw_frames a') = [fr 2, fr 3])
   \<and> (\<exists>b'. scw_run (map CUpdate [fr 1, fr 2, fr 3]) (ShortClipWriter_init 2 4) = Ok b'
          \<and> scw_frames b' = [fr 2, fr 3])"
  using rolling_history_keeps_last_frames
    [of "[fr 1, fr 2, fr 3]" 2 1 "KeyClipWriter_init 2 1" "ShortClipWriter_init 2 4"]
  by (simp add: KeyClipWriter_init_def ShortClipWriter_init_def)

section \<open>The continuous recorder\<close>

lemma put_frames_take:
  "n \<le> length fs \<Longrightarrow> put_frames n fs q = q @ rev (take n fs)"
  by (induction n arbitrary: q) (simp_all add: take_Suc_conv_app_nth)

lemma put_frames_rev: "put_frames (length fs) fs q = q @ rev fs"
  by (simp add: put_frames_take)

lemma start_armed:
  assumes "kcw_frames s \<noteq> []" and "list_all thread_done (kcw_threads s)"
  shows "\<exists>s'. KeyClipWriter_start p cc fps col s = Ok s'
            \<and> armed p (kcw_threads s) (rev (kcw_frames s)) s'
            \<and> kcw_frames s' = kcw_frames s \<and> kcw_bufSize s' = kcw_bufSize s"
proof -
  from assms(1) obtain f0 fs where fs: "kcw_frames s = f0 # fs"
    by (cases "kcw_frames s") auto
  show ?thesis
    using assms(2)
    by (simp add: KeyClipWriter_start_def fs Let_def armed_def VideoWriter_open_def
        put_frames_rev [of "f0 # fs" "[]", simplified])
qed

lemma armed_update:
  assumes "armed p ts seen s"
  shows "\<exists>s'. KeyClipWriter_update f s = Ok s' \<and> armed p ts (seen @ [f]) s'"
  using assms by (auto simp: armed_def KeyClipWriter_update_def Let_def)

lemma write_step_ended:
  assumes "kcw_threads s = ts @ [t]" and "list_all thread_done ts" and "i < length ts"
  shows "KeyClipWriter_write_step i s = s"
proof -
  have "thread_done (ts ! i)"
    using assms(2,3) by (simp add: list_all_length)
  moreover have "kcw_threads s ! i = ts ! i"
    using assms(1,3) by (simp add: nth_append)
  ultimately show ?thesis
    using assms(1,3) by (cases "ts ! i") (simp_all add: KeyClipWriter_write_step_def)
qed

lemma write_step_beyond:
  "length (kcw_threads s) \<le> i \<Longrightarrow> KeyClipWriter_write_step i s = s"
  by (simp add: KeyClipWriter_write_step_def)

lemma armed_own_step:
  assumes "armed p ts seen s"
  shows "armed p ts seen (KeyClipWriter_write_step (length ts) s)"
proof -
  from assms obtain t q w where
    st: "kcw_threads s = ts @ [t]" "\<not> thread_done t" "kcw_Q s = Some q"
        "kcw_writer s = Some w" "\<not> vw_released w" "vw_path w = p"
        "vw_written w @ in_flight t @ q = seen"
    and rest: "kcw_recording s" "kcw_outputPath s = Some p" "p \<in> kcw_files s"
        "list_all thread_done ts"
    by (auto simp: armed_def)
  show ?thesis
  proof (cases t)
    case AtLoop
    with st rest show ?thesis
      by (simp add: KeyClipWriter_write_step_def armed_def)
  next
    case AtPoll
    with st rest show ?thesis
      by (cases q) (simp_all add: KeyClipWriter_write_step_def armed_def)
  next
    case (AtWrite f)
    with st rest show ?thesis
      by (simp add: KeyClipWriter_write_step_def armed_def VideoWriter_write_def)
  next
    case Finished
    with st show ?thesis by simp
  next
    case (Raised e)
    with st show ?thesis by simp
  qed
qed

lemma armed_write_step:
  assumes "armed p ts seen s"
  shows "armed p ts seen (KeyClipWriter_write_step i s)"
proof -
  from assms obtain t where t: "kcw_threads s = ts @ [t]" "list_all thread_done ts"
    by (auto simp: armed_def)
  consider "i < length ts" | "i = length ts" | "length (kcw_threads s) \<le> i"
    using t(1) by force
  then show ?thesis
  proof cases
    case 1
    then show ?thesis using write_step_ended [OF t 1] assms by simp
  next
    case 2
    then show ?thesis using armed_own_step [OF assms] by simp
  next
    case 3
    then show ?thesis using write_step_beyond [OF 3] assms by simp
  qed
qed

lemma armed_run:
  assumes "armed p ts seen s"
  shows "\<exists>s'. kcw_run evs s = Ok s' \<and> armed p ts (seen @ updated_frames evs) s'"
  using assms
proof (induction evs arbitrary: s seen)
  case Nil
  then show ?case by simp
next
  case (Cons e evs)
  show ?case
  proof (cases e)
    case (Update f)
    from armed_update [OF Cons.prems, of f] obtain s1 where
      s1: "KeyClipWriter_update f s = Ok s1" "armed p ts (seen @ [f]) s1" by blast
    from Cons.IH [OF s1(2)] show ?thesis
      using s1(1) Update by simp
  next
    case (WriterStep i)
    from Cons.IH [OF armed_write_step [OF Cons.prems, of i]] show ?thesis
      using WriterStep by simp
  qed
qed


lemma join_ended:
  "thread_done (last (kcw_threads s)) \<Longrightarrow> KeyClipWriter_join s = Some s"
  by (subst KeyClipWriter_join.simps) simp

lemma join_at_loop:
  assumes "\<not> kcw_recording s" and "kcw_threads s = ts @ [AtLoop]"
  shows "KeyClipWriter_join s = Some (s\<lparr>kcw_threads := ts @ [Finished]\<rparr>)"
proof -
  have "KeyClipWriter_write_step (length ts) s = s\<lparr>kcw_threads := ts @ [Finished]\<rparr>"
    using assms by (simp add: KeyClipWriter_write_step_def)
  then have "KeyClipWriter_join s = KeyClipWriter_join (s\<lparr>kcw_threads := ts @ [Finished]\<rparr>)"
    using assms(2) by (subst KeyClipWriter_join.simps) simp
  then show ?thesis by (simp add: join_ended)
qed

lemma join_at_write:
  assumes "\<not> kcw_recording s" and "kcw_threads s = ts @ [AtWrite f]"
    and "kcw_writer s = Some w"
  shows "KeyClipWriter_join s =
           Some (s\<lparr>kcw_writer := Some (VideoWriter_write f w), kcw_threads := ts @ [Finished]\<rparr>)"
proof -
  let ?s1 = "s\<lparr>kcw_writer := Some (VideoWriter_write f w), kcw_threads := ts @ [AtLoop]\<rparr>"
  have "KeyClipWriter_write_step (length ts) s = ?s1"
    using assms by (simp add: KeyClipWriter_write_step_def)
  then have "KeyClipWriter_join s = KeyClipWriter_join ?s1"
    using assms(2) by (subst KeyClipWriter_join.simps) simp
  also have "\<dots> = Some (?s1\<lparr>kcw_threads := ts @ [Finished]\<rparr>)"
    using assms(1) by (intro join_at_loop) simp_all
  finally show ?thesis by simp
qed

lemma join_at_poll_empty:
  assumes "\<not> kcw_recording s" and "kcw_threads s = ts @ [AtPoll]" and "kcw_Q s = Some []"
  shows "KeyClipWriter_join s = Some (s\<lparr>kcw_threads := ts @ [Finished]\<rparr>)"
proof -
  let ?s1 = "s\<lparr>kcw_threads := ts @ [AtLoop]\<rparr>"
  have "KeyClipWriter_write_step (length ts) s = ?s1"
    using assms by (simp add: KeyClipWriter_write_step_def)
  then have "KeyClipWriter_join s = KeyClipWriter_join ?s1"
    using assms(2) by (subst KeyClipWriter_join.simps) simp
  also have "\<dots> = Some (?s1\<lparr>kcw_threads := ts @ [Finished]\<rparr>)"
    using assms(1) by (intro join_at_loop) simp_all
  finally show ?thesis by simp
qed

lemma join_at_poll_frame:
  assumes "\<not> kcw_recording s" and "kcw_threads s = ts @ [AtPoll]"
    and "kcw_Q s = Some (f # q)" and "kcw_writer s = Some w"
  shows "KeyClipWriter_join s =
           Some (s\<lparr>kcw_Q := Some q, kcw_writer := Some (VideoWriter_write f w),
                   kcw_threads := ts @ [Finished]\<rparr>)"
proof -
  let ?s1 = "s\<lparr>kcw_Q := Some q, kcw_threads := ts @ [AtWrite f]\<rparr>"
  have "KeyClipWriter_write_step (length ts) s = ?s1"
    using assms by (simp add: KeyClipWriter_write_step_def)
  then have "KeyClipWriter_join s = KeyClipWriter_join ?s1"
    using assms(2) by (subst KeyClipWriter_join.simps) simp
  also have "\<dots> = Some (?s1\<lparr>kcw_writer := Some (VideoWriter_write f w),
                               kcw_threads := ts @ [Finished]\<rparr>)"
    using assms(1,4) by (intro join_at_write) simp_all
  finally show ?thesis by simp
qed

text \<open>Joining the writer thread of an armed session whose flag has just been cleared.\<close>

lemma join_armed:
  assumes "armed p ts seen s"
  shows "\<exists>s2 q2 w2. KeyClipWriter_join (s\<lparr>kcw_recording := False\<rparr>) = Some s2
           \<and> kcw_Q s2 = Some q2 \<and> kcw_writer s2 = Some w2
           \<and> \<not> vw_released w2 \<and> vw_path w2 = p \<and> vw_written w2 @ q2 = seen
           \<and> kcw_Q s2 = map_option (drop (if last (kcw_threads s) = AtPoll then 1 else 0)) (kcw_Q s)
           \<and> kcw_threads s2 = ts @ [Finished] \<and> \<not> kcw_recording s2
           \<and> kcw_outputPath s2 = Some p \<and> kcw_files s2 = kcw_files s
           \<and> kcw_frames s2 = kcw_frames s"
proof -
  let ?s1 = "s\<lparr>kcw_recording := False\<rparr>"
  from assms obtain t q w where
    st: "kcw_threads s = ts @ [t]" "\<not> thread_done t" "kcw_Q s = Some q"
        "kcw_writer s = Some w" "\<not> vw_released w" "vw_path w = p"
        "vw_written w @ in_flight t @ q = seen"
    and rest: "kcw_outputPath s = Some p"
    by (auto simp: armed_def)
  have nr: "\<not> kcw_recording ?s1" by simp
  show ?thesis
  proof (cases t)
    case AtLoop
    then have "kcw_threads ?s1 = ts @ [AtLoop]" using st(1) by simp
    from join_at_loop [OF nr this] show ?thesis
      using st rest AtLoop by simp
  next
    case AtPoll
    then have th: "kcw_threads ?s1 = ts @ [AtPoll]" using st(1) by simp
    show ?thesis
    proof (cases q)
      case Nil
      then have "kcw_Q ?s1 = Some []" using st(3) by simp
      from join_at_poll_empty [OF nr th this] show ?thesis
        using st rest AtPoll Nil by simp
    next
      case (Cons f q')
      then have "kcw_Q ?s1 = Some (f # q')" "kcw_writer ?s1 = Some w" using st by simp_all
      from join_at_poll_frame [OF nr th this] show ?thesis
        using st rest AtPoll Cons by (simp add: VideoWriter_write_def)
    qed
  next
    case (AtWrite f)
    then have "kcw_threads ?s1 = ts @ [AtWrite f]" "kcw_writer ?s1 = Some w" using st by simp_all
    from join_at_write [OF nr this] show ?thesis
      using st rest AtWrite by (simp add: VideoWriter_write_def)
  next
    case Finished
    with st show ?thesis by simp
  next
    case (Raised e)
    with st show ?thesis by simp
  qed
qed

lemma flush_frames_open:
  "\<not> vw_released w \<Longrightarrow> flush_frames q w = w\<lparr>vw_written := vw_written w @ q\<rparr>"
  by (induction q arbitrary: w) (simp_all add: VideoWriter_write_def)



text \<open>
  Claim C2, amended. For every recorder whose rolling history is not empty and none of whose
  earlier writer threads is still alive, \<^verbatim>\<open>start\<close> returns, every interleaving of
  \<^verbatim>\<open>update\<close> calls and writer-thread steps runs without an exception, and
  \<^verbatim>\<open>finish\<close> returns; in the state it returns, the sink opened for the given path has
  received exactly the pre-roll frames, oldest first, followed by the frames passed to
  \<^verbatim>\<open>update\<close>, in order, the sink is released, the queue is empty and the writer thread
  has ended. The claim as stated also covers the empty pre-roll, where \<^verbatim>\<open>start\<close>
  raises instead.
\<close>

theorem finish_writes_preroll_then_updates:
  assumes "kcw_frames s0 \<noteq> []" and "list_all thread_done (kcw_threads s0)"
  shows "\<exists>s1 s2 s3 w.
           KeyClipWriter_start p cc fps col s0 = Ok s1
         \<and> kcw_run evs s1 = Ok s2
         \<and> KeyClipWriter_finish s2 = Some (Ok s3)
         \<and> kcw_writer s3 = Some w \<and> vw_path w = p
         \<and> vw_written w = rev (kcw_frames s0) @ updated_frames evs
         \<and> vw_released w \<and> kcw_Q s3 = Some [] \<and> \<not> kcw_recording s3
         \<and> list_all thread_done (kcw_threads s3)"
proof -
  let ?seen = "rev (kcw_frames s0) @ updated_frames evs"
  from start_armed [OF assms, of p cc fps col] obtain s1 where
    s1: "KeyClipWriter_start p cc fps col s0 = Ok s1"
        "armed p (kcw_threads s0) (rev (kcw_frames s0)) s1" by blast
  from armed_run [OF s1(2), of evs] obtain s2 where
    s2: "kcw_run evs s1 = Ok s2" "armed p (kcw_threads s0) ?seen s2" by blast
  from join_armed [OF s2(2)] obtain j q w where
    j: "KeyClipWriter_join (s2\<lparr>kcw_recording := False\<rparr>) = Some j"
       "kcw_Q j = Some q" "kcw_writer j = Some w" "\<not> vw_released w" "vw_path w = p"
       "vw_written w @ q = ?seen" "kcw_threads j = kcw_threads s0 @ [Finished]"
       "\<not> kcw_recording j"
    by blast
  have ne: "kcw_threads s2 \<noteq> []"
    using s2(2) by (auto simp: armed_def)
  let ?w = "VideoWriter_release (flush_frames q w)"
  let ?s3 = "j\<lparr>kcw_Q := Some [], kcw_writer := Some ?w\<rparr>"
  have "KeyClipWriter_flush j = Ok (j\<lparr>kcw_Q := Some [], kcw_writer := Some (flush_frames q w)\<rparr>)"
    using j(2,3) by (cases q) (simp_all add: KeyClipWriter_flush_def)
  then have "KeyClipWriter_finish s2 = Some (Ok ?s3)"
    using ne j(1) by (simp add: KeyClipWriter_finish_def)
  moreover have "vw_written ?w = ?seen" "vw_released ?w" "vw_path ?w = p"
    using j(4,5,6) by (simp_all add: flush_frames_open VideoWriter_release_def)
  moreover have "list_all thread_done (kcw_threads ?s3)"
    using assms(2) j(7) by simp
  ultimately show ?thesis
    using s1(1) s2(1) j(8) by simp
qed

theorem finish_writes_preroll_then_updates_witness:
  "kcw_frames ((KeyClipWriter_init 5 1)\<lparr>kcw_frames := [fr 5, fr 4, fr 3, fr 2, fr 1]\<rparr>) \<noteq> []
   \<and> list_all thread_done
        (kcw_threads ((KeyClipWriter_init 5 1)\<lparr>kcw_frames := [fr 5, fr 4, fr 3, fr 2, fr 1]\<rparr>))
   \<and> (\<exists>s1 s2 s3 w.
         KeyClipWriter_start ''clip.avi'' ''MJPG'' 30 True
           ((KeyClipWriter_init 5 1)\<lparr>kcw_frames := [fr 5, fr 4, fr 3, fr 2, fr 1]\<rparr>) = Ok s1
       \<and> kcw_run [WriterStep 0, Update (fr 6), WriterStep 0, Update (fr 7), Update (fr 8)] s1
           = Ok s2
       \<and> KeyClipWriter_finish s2 = Some (Ok s3)
       \<and> kcw_writer s3 = Some w
       \<and> vw_written w = [fr 1, fr 2, fr 3, fr 4, fr 5, fr 6, fr 7, fr 8]
       \<and> vw_released w)"
proof -
  let ?s0 = "(KeyClipWriter_init 5 1)\<lparr>kcw_frames := [fr 5, fr 4, fr 3, fr 2, fr 1]\<rparr>"
  let ?evs = "[WriterStep 0, Update (fr 6), WriterStep 0, Update (fr 7), Update (fr 8)]"
  have h1: "kcw_frames ?s0 \<noteq> []" by simp
  have h2: "list_all thread_done (kcw_threads ?s0)" by (simp add: KeyClipWriter_init_def)
  from finish_writes_preroll_then_updates [OF h1 h2, of "''clip.avi''" "''MJPG''" 30 True ?evs]
  obtain s1 s2 s3 w where
    "KeyClipWriter_start ''clip.avi'' ''MJPG'' 30 True ?s0 = Ok s1"
    "kcw_run ?evs s1 = Ok s2" "KeyClipWriter_finish s2 = Some (Ok s3)"
    "kcw_writer s3 = Some w" "vw_written w = rev (kcw_frames ?s0) @ updated_frames ?evs"
    "vw_released w"
    by blast
  then show ?thesis using h1 h2 by (intro conjI exI [of _ s1] exI [of _ s2] exI [of _ s3] exI [of _ w]) simp_all
qed

text \<open>
  Claim C2 fails for the empty pre-roll: on a fresh recorder \<^verbatim>\<open>start\<close> raises
  \<^verbatim>\<open>IndexError\<close>, the \<^verbatim>\<open>update\<close> that follows raises \<^verbatim>\<open>AttributeError\<close> (the
  flag is set and there is no queue), \<^verbatim>\<open>finish\<close> raises \<^verbatim>\<open>AttributeError\<close> (there
  is no thread), and no sink was ever opened to receive the frame.
\<close>

theorem finish_after_empty_preroll_fails:
  "KeyClipWriter_start ''clip.avi'' ''MJPG'' 30 True (KeyClipWriter_init 5 1)
     = Raise IndexError
         ((KeyClipWriter_init 5 1)\<lparr>kcw_recording := True, kcw_outputPath := Some ''clip.avi''\<rparr>)
   \<and> KeyClipWriter_update (fr 1)
       ((KeyClipWriter_init 5 1)\<lparr>kcw_recording := True, kcw_outputPath := Some ''clip.avi''\<rparr>)
     = Raise AttributeError
         ((KeyClipWriter_init 5 1)\<lparr>kcw_recording := True, kcw_outputPath := Some ''clip.avi'',
                                    kcw_frames := [fr 1]\<rparr>)
   \<and> KeyClipWriter_finish
       ((KeyClipWriter_init 5 1)\<lparr>kcw_recording := True, kcw_outputPath := Some ''clip.avi'',
                                  kcw_frames := [fr 1]\<rparr>)
     = Some (Raise AttributeError
         ((KeyClipWriter_init 5 1)\<lparr>kcw_outputPath := Some ''clip.avi'', kcw_frames := [fr 1]\<rparr>))
   \<and> kcw_writer
        ((KeyClipWriter_init 5 1)\<lparr>kcw_outputPath := Some ''clip.avi'', kcw_frames := [fr 1]\<rparr>)
     = None"
  by (simp add: KeyClipWriter_start_def KeyClipWriter_update_def KeyClipWriter_finish_def
      KeyClipWriter_init_def deque_appendleft_def Let_def)


text \<open>
  Claim C5, amended. When the rolling history is empty, \<^verbatim>\<open>start\<close> raises
  \<^verbatim>\<open>IndexError\<close> in the caller's thread, before a sink is opened, a queue created or a
  thread spawned: history, writer, queue, threads and disk are as they were. The recording
  flag and the output path were assigned before the failing lookup and keep their new
  values.
\<close>

theorem start_empty_history_raises:
  assumes "kcw_frames s = []"
  shows "KeyClipWriter_start p cc fps col s
           = Raise IndexError (s\<lparr>kcw_recording := True, kcw_outputPath := Some p\<rparr>)"
  using assms by (simp add: KeyClipWriter_start_def)

theorem start_empty_history_raises_witness:
  "kcw_frames (KeyClipWriter_init 64 1) = []
   \<and> KeyClipWriter_start ''clip.avi'' ''MJPG'' 30 True (KeyClipWriter_init 64 1)
       = Raise IndexError
           ((KeyClipWriter_init 64 1)\<lparr>kcw_recording := True,
                                       kcw_outputPath := Some ''clip.avi''\<rparr>)"
  using start_empty_history_raises [of "KeyClipWriter_init 64 1" "''clip.avi''" "''MJPG''" 30 True]
  by (simp add: KeyClipWriter_init_def)

text \<open>
  Claim C5 as stated fails: after the failed \<^verbatim>\<open>start\<close> of a fresh recorder the
  recording flag is set, so the recorder is not in the state it was in before the call.
\<close>

theorem start_empty_history_leaves_flag_set:
  "\<not> kcw_recording (KeyClipWriter_init 64 1)
   \<and> \<not> returned_ok (KeyClipWriter_start ''clip.avi'' ''MJPG'' 30 True (KeyClipWriter_init 64 1))
   \<and> kcw_recording
       (result_state (KeyClipWriter_start ''clip.avi'' ''MJPG'' 30 True (KeyClipWriter_init 64 1)))
   \<and> result_state (KeyClipWriter_start ''clip.avi'' ''MJPG'' 30 True (KeyClipWriter_init 64 1))
       \<noteq> KeyClipWriter_init 64 1"
  by (simp add: KeyClipWriter_start_def KeyClipWriter_init_def)

lemma write_step_recording:
  "kcw_recording (KeyClipWriter_write_step i s) = kcw_recording s"
  by (simp add: KeyClipWriter_write_step_def split: wthread.splits option.splits list.splits)

lemma write_step_length:
  "length (kcw_threads (KeyClipWriter_write_step i s)) = length (kcw_threads s)"
  by (simp add: KeyClipWriter_write_step_def split: wthread.splits option.splits list.splits)

lemma join_returns:
  assumes "KeyClipWriter_join s = Some s'"
  shows "thread_done (last (kcw_threads s')) \<and> kcw_recording s' = kcw_recording s
           \<and> length (kcw_threads s') = length (kcw_threads s)"
proof (rule KeyClipWriter_join.raw_induct
    [where P = "\<lambda>s s'. thread_done (last (kcw_threads s')) \<and> kcw_recording s' = kcw_recording s
                   \<and> length (kcw_threads s') = length (kcw_threads s)", OF _ assms])
  fix join :: "KeyClipWriter \<Rightarrow> KeyClipWriter option" and s s'
  assume IH: "\<And>x y. join x = Some y \<Longrightarrow>
                thread_done (last (kcw_threads y)) \<and> kcw_recording y = kcw_recording x
                  \<and> length (kcw_threads y) = length (kcw_threads x)"
    and eq: "(if thread_done (last (kcw_threads s)) then Some s
              else join (KeyClipWriter_write_step (length (kcw_threads s) - 1) s)) = Some s'"
  show "thread_done (last (kcw_threads s')) \<and> kcw_recording s' = kcw_recording s
          \<and> length (kcw_threads s') = length (kcw_threads s)"
  proof (cases "thread_done (last (kcw_threads s))")
    case True
    with eq show ?thesis by simp
  next
    case False
    with eq have "join (KeyClipWriter_write_step (length (kcw_threads s) - 1) s) = Some s'"
      by simp
    from IH [OF this] show ?thesis
      by (simp add: write_step_recording write_step_length)
  qed
qed

lemma flush_returns:
  "KeyClipWriter_flush s = Ok s' \<Longrightarrow>
     kcw_Q s' = Some [] \<and> kcw_threads s' = kcw_threads s \<and> kcw_recording s' = kcw_recording s"
  by (auto simp: KeyClipWriter_flush_def split: option.splits list.splits)

text \<open>
  Claim C8. Whenever \<^verbatim>\<open>finish\<close> has returned, a second \<^verbatim>\<open>finish\<close> returns as
  well and leaves the state, with its sink and the disk, exactly as the first one left it:
  no frame is written and no sink is opened.
\<close>

theorem finish_twice_changes_nothing:
  assumes "KeyClipWriter_finish s = Some (Ok s1)"
  shows "KeyClipWriter_finish s1 = Some (Ok s1)"
proof -
  let ?s0 = "s\<lparr>kcw_recording := False\<rparr>"
  from assms have ne: "kcw_threads s \<noteq> []"
    by (auto simp: KeyClipWriter_finish_def split: if_splits)
  with assms obtain s2 where s2: "KeyClipWriter_join ?s0 = Some s2"
    by (auto simp: KeyClipWriter_finish_def split: option.splits)
  with assms ne obtain s3 where s3: "KeyClipWriter_flush s2 = Ok s3"
    by (auto simp: KeyClipWriter_finish_def split: result.splits)
  with assms ne s2 obtain w where w: "kcw_writer s3 = Some w"
    and s1: "s1 = s3\<lparr>kcw_writer := Some (VideoWriter_release w)\<rparr>"
    by (auto simp: KeyClipWriter_finish_def split: option.splits)
  from join_returns [OF s2] flush_returns [OF s3]
  have facts: "thread_done (last (kcw_threads s1))" "\<not> kcw_recording s1" "kcw_Q s1 = Some []"
    by (simp_all add: s1)
  have same: "s1\<lparr>kcw_recording := False\<rparr> = s1"
    using facts(2) by simp
  have ne1: "kcw_threads s1 \<noteq> []"
  proof
    assume "kcw_threads s1 = []"
    then have "kcw_threads s2 = []"
      using flush_returns [OF s3] by (simp add: s1)
    moreover have "kcw_threads s2 \<noteq> []"
      using join_returns [OF s2] ne by auto
    ultimately show False by simp
  qed
  have jn: "KeyClipWriter_join s1 = Some s1"
    using facts(1) by (rule join_ended)
  have fl: "KeyClipWriter_flush s1 = Ok s1"
    using facts(3) by (simp add: KeyClipWriter_flush_def)
  have wr: "kcw_writer s1 = Some (VideoWriter_release w)"
    by (simp add: s1)
  have rel: "s1\<lparr>kcw_writer := Some (VideoWriter_release (VideoWriter_release w))\<rparr> = s1"
    by (simp add: s1 VideoWriter_release_def)
  show ?thesis
    unfolding KeyClipWriter_finish_def Let_def same
    by (simp add: ne1 jn fl wr rel)
qed


theorem finish_twice_changes_nothing_witness:
  "KeyClipWriter_finish
     (result_state (KeyClipWriter_start ''clip.avi'' ''MJPG'' 30 True
        ((KeyClipWriter_init 2 1)\<lparr>kcw_frames := [fr 1]\<rparr>)))
     = Some (Ok \<lparr>kcw_bufSize = 2, kcw_timeout = 1, kcw_frames = [fr 1], kcw_Q = Some [],
          kcw_writer = Some \<lparr>vw_path = ''clip.avi'', vw_fourcc = ''MJPG'', vw_fps = 30,
             vw_size = (640, 480), vw_isColor = True, vw_written = [fr 1],
             vw_released = True\<rparr>,
          kcw_threads = [Finished], kcw_recording = False,
          kcw_outputPath = Some ''clip.avi'', kcw_isColor = True,
          kcw_files = {''clip.avi''}\<rparr>)
   \<and> KeyClipWriter_finish
       \<lparr>kcw_bufSize = 2, kcw_timeout = 1, kcw_frames = [fr 1], kcw_Q = Some [],
          kcw_writer = Some \<lparr>vw_path = ''clip.avi'', vw_fourcc = ''MJPG'', vw_fps = 30,
             vw_size = (640, 480), vw_isColor = True, vw_written = [fr 1],
             vw_released = True\<rparr>,
          kcw_threads = [Finished], kcw_recording = False,
          kcw_outputPath = Some ''clip.avi'', kcw_isColor = True,
          kcw_files = {''clip.avi''}\<rparr>
     = Some (Ok \<lparr>kcw_bufSize = 2, kcw_timeout = 1, kcw_frames = [fr 1], kcw_Q = Some [],
          kcw_writer = Some \<lparr>vw_path = ''clip.avi'', vw_fourcc = ''MJPG'', vw_fps = 30,
             vw_size = (640, 480), vw_isColor = True, vw_written = [fr 1],
             vw_released = True\<rparr>,
          kcw_threads = [Finished], kcw_recording = False,
          kcw_outputPath = Some ''clip.avi'', kcw_isColor = True,
          kcw_files = {''clip.avi''}\<rparr>)"
proof -
  have first: "KeyClipWriter_finish
     (result_state (KeyClipWriter_start ''clip.avi'' ''MJPG'' 30 True
        ((KeyClipWriter_init 2 1)\<lparr>kcw_frames := [fr 1]\<rparr>)))
     = Some (Ok \<lparr>kcw_bufSize = 2, kcw_timeout = 1, kcw_frames = [fr 1], kcw_Q = Some [],
          kcw_writer = Some \<lparr>vw_path = ''clip.avi'', vw_fourcc = ''MJPG'', vw_fps = 30,
             vw_size = (640, 480), vw_isColor = True, vw_written = [fr 1],
             vw_released = True\<rparr>,
          kcw_threads = [Finished], kcw_recording = False,
          kcw_outputPath = Some ''clip.avi'', kcw_isColor = True,
          kcw_files = {''clip.avi''}\<rparr>)"
    by (simp add: KeyClipWriter_finish_def KeyClipWriter_start_def KeyClipWriter_init_def
        KeyClipWriter_join.simps KeyClipWriter_write_step_def KeyClipWriter_flush_def
        VideoWriter_open_def VideoWriter_write_def VideoWriter_release_def fr_def Let_def)
  from finish_twice_changes_nothing [OF first] first show ?thesis by simp
qed

text \<open>
  Claim C7, amended. For every armed session as in C2, \<^verbatim>\<open>terminate\<close> returns, the
  output path is then absent from the disk, and the sink is released without a flush: what
  the sink has received and what is left in the queue are together the pre-roll followed by
  the updates, and the queue left behind is the queue at the call, less its first frame
  when the writer thread had already passed its test of \<^verbatim>\<open>self.recording\<close>.
\<close>

theorem terminate_removes_file_without_flush:
  assumes "kcw_frames s0 \<noteq> []" and "list_all thread_done (kcw_threads s0)"
  shows "\<exists>s1 s2 s3 w q.
           KeyClipWriter_start p cc fps col s0 = Ok s1
         \<and> kcw_run evs s1 = Ok s2
         \<and> KeyClipWriter_terminate s2 = Some (Ok s3)
         \<and> kcw_outputPath s3 = Some p \<and> p \<notin> kcw_files s3
         \<and> kcw_writer s3 = Some w \<and> vw_released w
         \<and> kcw_Q s3 = Some q
         \<and> vw_written w @ q = rev (kcw_frames s0) @ updated_frames evs
         \<and> kcw_Q s3 = map_option (drop (if last (kcw_threads s2) = AtPoll then 1 else 0)) (kcw_Q s2)"
proof -
  let ?seen = "rev (kcw_frames s0) @ updated_frames evs"
  from start_armed [OF assms, of p cc fps col] obtain s1 where
    s1: "KeyClipWriter_start p cc fps col s0 = Ok s1"
        "armed p (kcw_threads s0) (rev (kcw_frames s0)) s1" by blast
  from armed_run [OF s1(2), of evs] obtain s2 where
    s2: "kcw_run evs s1 = Ok s2" "armed p (kcw_threads s0) ?seen s2" by blast
  from join_armed [OF s2(2)] obtain j q w where
    j: "KeyClipWriter_join (s2\<lparr>kcw_recording := False\<rparr>) = Some j"
       "kcw_Q j = Some q" "kcw_writer j = Some w"
       "vw_written w @ q = ?seen"
       "kcw_Q j = map_option (drop (if last (kcw_threads s2) = AtPoll then 1 else 0)) (kcw_Q s2)"
       "kcw_outputPath j = Some p" "kcw_files j = kcw_files s2"
    by blast
  have ne: "kcw_threads s2 \<noteq> []" and onDisk: "p \<in> kcw_files s2"
    using s2(2) by (auto simp: armed_def)
  let ?s3 = "j\<lparr>kcw_writer := Some (VideoWriter_release w), kcw_files := kcw_files j - {p}\<rparr>"
  have "KeyClipWriter_terminate s2 = Some (Ok ?s3)"
    using ne onDisk j(1,3,6,7) by (simp add: KeyClipWriter_terminate_def)
  moreover have "kcw_outputPath ?s3 = Some p" "p \<notin> kcw_files ?s3"
    "kcw_writer ?s3 = Some (VideoWriter_release w)" "vw_released (VideoWriter_release w)"
    "kcw_Q ?s3 = Some q" "vw_written (VideoWriter_release w) @ q = ?seen"
    "kcw_Q ?s3 = map_option (drop (if last (kcw_threads s2) = AtPoll then 1 else 0)) (kcw_Q s2)"
    using j(2,4,5,6) by (simp_all add: VideoWriter_release_def)
  ultimately show ?thesis
    using s1(1) s2(1) by blast
qed

theorem terminate_removes_file_without_flush_witness:
  "kcw_frames ((KeyClipWriter_init 2 1)\<lparr>kcw_frames := [fr 1]\<rparr>) \<noteq> []
   \<and> list_all thread_done (kcw_threads ((KeyClipWriter_init 2 1)\<lparr>kcw_frames := [fr 1]\<rparr>))
   \<and> (\<exists>s1 s2 s3 w q.
         KeyClipWriter_start ''clip.avi'' ''MJPG'' 30 True
           ((KeyClipWriter_init 2 1)\<lparr>kcw_frames := [fr 1]\<rparr>) = Ok s1
       \<and> kcw_run [Update (fr 2), Update (fr 3)] s1 = Ok s2
       \<and> KeyClipWriter_terminate s2 = Some (Ok s3)
       \<and> ''clip.avi'' \<notin> kcw_files s3
       \<and> kcw_writer s3 = Some w \<and> vw_released w \<and> kcw_Q s3 = Some q
       \<and> vw_written w @ q = [fr 1, fr 2, fr 3])"
proof -
  let ?s0 = "(KeyClipWriter_init 2 1)\<lparr>kcw_frames := [fr 1]\<rparr>"
  let ?evs = "[Update (fr 2), Update (fr 3)]"
  have h1: "kcw_frames ?s0 \<noteq> []" by simp
  have h2: "list_all thread_done (kcw_threads ?s0)" by (simp add: KeyClipWriter_init_def)
  from terminate_removes_file_without_flush [OF h1 h2, of "''clip.avi''" "''MJPG''" 30 True ?evs]
  obtain s1 s2 s3 w q where
    "KeyClipWriter_start ''clip.avi'' ''MJPG'' 30 True ?s0 = Ok s1"
    "kcw_run ?evs s1 = Ok s2" "KeyClipWriter_terminate s2 = Some (Ok s3)"
    "''clip.avi'' \<notin> kcw_files s3" "kcw_writer s3 = Some w" "vw_released w" "kcw_Q s3 = Some q"
    "vw_written w @ q = rev (kcw_frames ?s0) @ updated_frames ?evs"
    by blast
  then show ?thesis
    using h1 h2
    by (intro conjI exI [of _ s1] exI [of _ s2] exI [of _ s3] exI [of _ w] exI [of _ q]) simp_all
qed

text \<open>
  Claim C7 as stated fails: in \<open>armed_example\<close> the queue holds \<open>fr 1\<close> and \<open>fr 2\<close> and
  the sink has received nothing when \<^verbatim>\<open>terminate\<close> is called, and the sink has received
  \<open>fr 1\<close> when it returns.
\<close>

theorem terminate_writes_pending_frame:
  "kcw_Q armed_example = Some [fr 1, fr 2]
   \<and> map_option vw_written (kcw_writer armed_example) = Some []
   \<and> KeyClipWriter_terminate armed_example
       = Some (Ok \<lparr>kcw_bufSize = 2, kcw_timeout = 1, kcw_frames = [fr 2, fr 1],
            kcw_Q = Some [fr 2],
            kcw_writer = Some \<lparr>vw_path = ''clip.avi'', vw_fourcc = ''MJPG'', vw_fps = 30,
               vw_size = (640, 480), vw_isColor = True, vw_written = [fr 1],
               vw_released = True\<rparr>,
            kcw_threads = [Finished], kcw_recording = False,
            kcw_outputPath = Some ''clip.avi'', kcw_isColor = True, kcw_files = {}\<rparr>)"
  by (simp add: armed_example_def KeyClipWriter_terminate_def KeyClipWriter_start_def
      KeyClipWriter_init_def KeyClipWriter_update_def deque_appendleft_def
      KeyClipWriter_join.simps KeyClipWriter_write_step_def
      VideoWriter_open_def VideoWriter_write_def VideoWriter_release_def fr_def Let_def)

section \<open>The bounded recorder\<close>

text \<open>
  Claim C1 at its own scenario. With ceiling 4, pre-roll \<open>fr 1\<close>, \<open>fr 2\<close> and updates
  \<open>fr 3\<close>, \<open>fr 4\<close>, \<open>fr 5\<close>, the recorder is not flagged, \<^verbatim>\<open>finish\<close> spawns the
  writing thread, and the thread opens a sink and writes all five frames: \<^verbatim>\<open>update\<close>
  compares the length before it appends, so the fifth frame finds four pending frames and
  is appended.
\<close>

theorem short_clip_scenario_writes_file:
  "returned_ok short_clip_scenario
   \<and> \<not> scw_toolong (result_state short_clip_scenario)
   \<and> scw_threads (result_state short_clip_scenario) = [Completed]
   \<and> scw_sinks (result_state short_clip_scenario)
       = [\<lparr>vw_path = ''clip.avi'', vw_fourcc = ''MJPG'', vw_fps = 30, vw_size = (640, 480),
           vw_isColor = True, vw_written = [fr 1, fr 2, fr 3, fr 4, fr 5],
           vw_released = True\<rparr>]"
  by (simp add: short_clip_scenario_def ShortClipWriter_init_def ShortClipWriter_update_def
      ShortClipWriter_start_def ShortClipWriter_finish_def ShortClipWriter_run_thread_def
      ShortClipWriter_write_def deque_append_def VideoWriter_open_def VideoWriter_write_def
      VideoWriter_release_def fr_def Let_def)

lemma deque_append_length:
  "length d \<le> C \<Longrightarrow> length (deque_append C x d) \<le> C"
  by (simp add: deque_append_def Let_def)

lemma scw_inv_init: "scw_inv (ShortClipWriter_init C L)"
  by (simp add: scw_inv_def ShortClipWriter_init_def)

lemma scw_inv_update:
  assumes "scw_inv s"
  shows "\<exists>s'. ShortClipWriter_update f s = Ok s' \<and> scw_inv s'
           \<and> scw_bufSize s' = scw_bufSize s \<and> scw_rec_max_frames s' = scw_rec_max_frames s"
proof (cases "scw_Q s")
  case None
  with assms show ?thesis
    by (simp add: scw_inv_def ShortClipWriter_update_def deque_append_length)
next
  case (Some q)
  with assms show ?thesis
    by (auto simp: scw_inv_def ShortClipWriter_update_def deque_append_length Let_def
        split: if_splits)
qed

lemma scw_inv_start:
  assumes "scw_inv s"
  shows "scw_inv (ShortClipWriter_start p c r col s)
           \<and> scw_bufSize (ShortClipWriter_start p c r col s) = scw_bufSize s
           \<and> scw_rec_max_frames (ShortClipWriter_start p c r col s) = scw_rec_max_frames s"
  using assms by (auto simp: scw_inv_def ShortClipWriter_start_def Let_def max_def)

lemma scw_inv_finish:
  assumes "scw_inv s"
  shows "scw_inv (ShortClipWriter_finish s)
           \<and> scw_bufSize (ShortClipWriter_finish s) = scw_bufSize s
           \<and> scw_rec_max_frames (ShortClipWriter_finish s) = scw_rec_max_frames s"
  using assms
  by (cases "scw_Q s") (simp_all add: scw_inv_def ShortClipWriter_finish_def Let_def)

lemma scw_write_frame:
  "scw_frames (result_state (ShortClipWriter_write s)) = scw_frames s
   \<and> scw_Q (result_state (ShortClipWriter_write s)) = scw_Q s
   \<and> scw_recording (result_state (ShortClipWriter_write s)) = scw_recording s
   \<and> scw_toolong (result_state (ShortClipWriter_write s)) = scw_toolong s
   \<and> scw_bufSize (result_state (ShortClipWriter_write s)) = scw_bufSize s
   \<and> scw_rec_max_frames (result_state (ShortClipWriter_write s)) = scw_rec_max_frames s"
  by (simp add: ShortClipWriter_write_def Let_def split: option.splits list.splits prod.splits)

lemma scw_inv_same:
  assumes "scw_inv s" and "scw_frames s' = scw_frames s" and "scw_Q s' = scw_Q s"
    and "scw_recording s' = scw_recording s" and "scw_toolong s' = scw_toolong s"
    and "scw_bufSize s' = scw_bufSize s" and "scw_rec_max_frames s' = scw_rec_max_frames s"
  shows "scw_inv s'"
  using assms by (cases "scw_Q s") (simp_all add: scw_inv_def)

lemma scw_inv_run_thread:
  assumes "scw_inv s"
  shows "scw_inv (ShortClipWriter_run_thread i s)
           \<and> scw_bufSize (ShortClipWriter_run_thread i s) = scw_bufSize s
           \<and> scw_rec_max_frames (ShortClipWriter_run_thread i s) = scw_rec_max_frames s"
proof -
  let ?s' = "ShortClipWriter_run_thread i s"
  have same: "scw_frames ?s' = scw_frames s" "scw_Q ?s' = scw_Q s"
    "scw_recording ?s' = scw_recording s" "scw_toolong ?s' = scw_toolong s"
    "scw_bufSize ?s' = scw_bufSize s" "scw_rec_max_frames ?s' = scw_rec_max_frames s"
    using scw_write_frame [of s]
    by (cases "ShortClipWriter_write s"; simp add: ShortClipWriter_run_thread_def)+
  from scw_inv_same [OF assms same] same(5,6) show ?thesis by simp
qed

lemma scw_inv_run:
  assumes "scw_inv s"
  shows "\<exists>s'. scw_run cs s = Ok s' \<and> scw_inv s'
           \<and> scw_bufSize s' = scw_bufSize s \<and> scw_rec_max_frames s' = scw_rec_max_frames s"
  using assms
proof (induction cs arbitrary: s)
  case Nil
  then show ?case by simp
next
  case (Cons c cs)
  show ?case
  proof (cases c)
    case (CUpdate f)
    from scw_inv_update [OF Cons.prems, of f] obtain s1 where
      s1: "ShortClipWriter_update f s = Ok s1" "scw_inv s1"
          "scw_bufSize s1 = scw_bufSize s" "scw_rec_max_frames s1 = scw_rec_max_frames s"
      by blast
    from Cons.IH [OF s1(2)] show ?thesis using s1 CUpdate by simp
  next
    case (CStart p c' r col)
    from scw_inv_start [OF Cons.prems, of p c' r col] Cons.IH [of "ShortClipWriter_start p c' r col s"]
    show ?thesis using CStart by simp
  next
    case CFinish
    from scw_inv_finish [OF Cons.prems] Cons.IH [of "ShortClipWriter_finish s"]
    show ?thesis using CFinish by simp
  next
    case (CThread i)
    from scw_inv_run_thread [OF Cons.prems, of i] Cons.IH [of "ShortClipWriter_run_thread i s"]
    show ?thesis using CThread by simp
  qed
qed

text \<open>
  Claim C9, amended. After any sequence of \<^verbatim>\<open>update\<close>, \<^verbatim>\<open>start\<close> and \<^verbatim>\<open>finish\<close>
  calls and thread runs on a fresh recorder of capacity \<open>C\<close> and ceiling \<open>L\<close>, no call
  has raised, the pending sequence holds at most \<open>max (L + 1) C\<close> frames, which is
  \<open>L + 1\<close> whenever \<open>C \<le> L + 1\<close>, and once the recorder is flagged an \<^verbatim>\<open>update\<close>
  leaves the pending sequence as it is. The bound \<open>L + 1\<close> alone fails because
  \<^verbatim>\<open>start\<close> copies the whole history, whatever the ceiling.
\<close>

theorem pending_sequence_bound:
  "\<exists>s. scw_run cs (ShortClipWriter_init C L) = Ok s
      \<and> (\<forall>q. scw_Q s = Some q \<longrightarrow> int (length q) \<le> max (L + 1) (int C))
      \<and> (scw_toolong s \<longrightarrow>
           (\<forall>f. \<exists>s'. ShortClipWriter_update f s = Ok s' \<and> scw_toolong s' \<and> scw_Q s' = scw_Q s))"
proof -
  from scw_inv_run [OF scw_inv_init, of cs C L] obtain s where
    s: "scw_run cs (ShortClipWriter_init C L) = Ok s" "scw_inv s"
       "scw_bufSize s = C" "scw_rec_max_frames s = L"
    by (auto simp: ShortClipWriter_init_def)
  have "int (length q) \<le> max (L + 1) (int C)" if "scw_Q s = Some q" for q
    using s(2,3,4) that by (simp add: scw_inv_def)
  moreover have "\<exists>s'. ShortClipWriter_update f s = Ok s' \<and> scw_toolong s' \<and> scw_Q s' = scw_Q s"
    if "scw_toolong s" for f
    using s(2) that
    by (cases "scw_Q s") (auto simp: scw_inv_def ShortClipWriter_update_def Let_def)
  ultimately show ?thesis using s(1) by blast
qed


theorem pending_sequence_bound_witness:
  "\<exists>s. scw_run [CUpdate (fr 1), CUpdate (fr 2), CStart ''clip.avi'' ''MJPG'' 30 True,
                 CUpdate (fr 3), CUpdate (fr 4)] (ShortClipWriter_init 2 2) = Ok s
      \<and> scw_Q s = Some [fr 1, fr 2, fr 3] \<and> scw_toolong s
      \<and> int (length [fr 1, fr 2, fr 3]) \<le> max (2 + 1) (int 2)
      \<and> (\<exists>s'. ShortClipWriter_update (fr 5) s = Ok s' \<and> scw_toolong s' \<and> scw_Q s' = scw_Q s)"
proof -
  let ?cs = "[CUpdate (fr 1), CUpdate (fr 2), CStart ''clip.avi'' ''MJPG'' 30 True,
              CUpdate (fr 3), CUpdate (fr 4)]"
  from pending_sequence_bound [of ?cs 2 2] obtain s where
    s: "scw_run ?cs (ShortClipWriter_init 2 2) = Ok s"
       "\<forall>q. scw_Q s = Some q \<longrightarrow> int (length q) \<le> max (2 + 1) (int 2)"
       "scw_toolong s \<longrightarrow>
          (\<forall>f. \<exists>s'. ShortClipWriter_update f s = Ok s' \<and> scw_toolong s' \<and> scw_Q s' = scw_Q s)"
    by blast
  have "scw_Q (result_state (scw_run ?cs (ShortClipWriter_init 2 2))) = Some [fr 1, fr 2, fr 3]"
    and "scw_toolong (result_state (scw_run ?cs (ShortClipWriter_init 2 2)))"
    by (simp_all add: ShortClipWriter_init_def ShortClipWriter_update_def
        ShortClipWriter_start_def deque_append_def Let_def)
  then have now: "scw_Q s = Some [fr 1, fr 2, fr 3]" "scw_toolong s"
    using s(1) by simp_all
  with s(2,3) have "int (length [fr 1, fr 2, fr 3]) \<le> max (2 + 1) (int 2)"
    and "\<exists>s'. ShortClipWriter_update (fr 5) s = Ok s' \<and> scw_toolong s' \<and> scw_Q s' = scw_Q s"
    by blast+
  with s(1) now show ?thesis by blast
qed

text \<open>
  Claim C9 as stated fails: with capacity 3 and ceiling 1, three updates and \<^verbatim>\<open>start\<close>
  leave three pending frames, more than the ceiling plus one.
\<close>

theorem pending_sequence_exceeds_ceiling:
  "scw_Q (result_state
     (scw_run [CUpdate (fr 1), CUpdate (fr 2), CUpdate (fr 3),
               CStart ''clip.avi'' ''MJPG'' 30 True] (ShortClipWriter_init 3 1)))
     = Some [fr 1, fr 2, fr 3]
   \<and> \<not> int (length [fr 1, fr 2, fr 3])
         \<le> scw_rec_max_frames (ShortClipWriter_init 3 1) + 1"
  by (simp add: ShortClipWriter_init_def ShortClipWriter_update_def
      ShortClipWriter_start_def deque_append_def Let_def)

text \<open>
  Claim C10. When the rolling history is empty, \<^verbatim>\<open>start\<close> followed by \<^verbatim>\<open>finish\<close>
  spawns the writing thread, \<^verbatim>\<open>write\<close> raises \<^verbatim>\<open>IndexError\<close> at
  \<^verbatim>\<open>framelist[0]\<close>, the thread dies of it, and no sink is opened.
\<close>

theorem empty_clip_write_raises:
  assumes "scw_frames s = []"
  shows "ShortClipWriter_finish (ShortClipWriter_start p c r col s)
           = (ShortClipWriter_start p c r col s)
               \<lparr>scw_recording := False, scw_threads := scw_threads s @ [Spawned]\<rparr>
       \<and> ShortClipWriter_write (ShortClipWriter_finish (ShortClipWriter_start p c r col s))
           = Raise IndexError (ShortClipWriter_finish (ShortClipWriter_start p c r col s))
       \<and> ShortClipWriter_run_thread (length (scw_threads s))
             (ShortClipWriter_finish (ShortClipWriter_start p c r col s))
           = (ShortClipWriter_finish (ShortClipWriter_start p c r col s))
               \<lparr>scw_threads := scw_threads s @ [Died IndexError]\<rparr>
       \<and> scw_sinks (ShortClipWriter_finish (ShortClipWriter_start p c r col s)) = scw_sinks s"
  using assms
  by (simp add: ShortClipWriter_start_def ShortClipWriter_finish_def ShortClipWriter_write_def
      ShortClipWriter_run_thread_def Let_def)

theorem empty_clip_write_raises_witness:
  "scw_frames (ShortClipWriter_init 60 200) = []
   \<and> ShortClipWriter_write
       (ShortClipWriter_finish
          (ShortClipWriter_start ''clip.avi'' ''MJPG'' 30 True (ShortClipWriter_init 60 200)))
     = Raise IndexError
         (ShortClipWriter_finish
            (ShortClipWriter_start ''clip.avi'' ''MJPG'' 30 True (ShortClipWriter_init 60 200)))
   \<and> scw_threads (ShortClipWriter_run_thread 0
       (ShortClipWriter_finish
          (ShortClipWriter_start ''clip.avi'' ''MJPG'' 30 True (ShortClipWriter_init 60 200))))
     = [Died IndexError]
   \<and> scw_sinks (ShortClipWriter_run_thread 0
       (ShortClipWriter_finish
          (ShortClipWriter_start ''clip.avi'' ''MJPG'' 30 True (ShortClipWriter_init 60 200))))
     = []"
  using empty_clip_write_raises
    [of "ShortClipWriter_init 60 200" "''clip.avi''" "''MJPG''" 30 True]
  by (simp add: ShortClipWriter_init_def ShortClipWriter_start_def ShortClipWriter_finish_def
      ShortClipWriter_write_def ShortClipWriter_run_thread_def Let_def)

section \<open>The capture decoupler\<close>

lemma update_step_effect:
  "(vs_Q (VideoStream_update_step cam i s) = vs_Q s
      \<and> vs_stream (VideoStream_update_step cam i s) = vs_stream s
    \<or> vs_Q (VideoStream_update_step cam i s) = vs_Q s @ [snd (cam (vs_stream s))]
      \<and> vs_stream (VideoStream_update_step cam i s) = Suc (vs_stream s))
   \<and> vs_frame (VideoStream_update_step cam i s) = vs_frame s"
  by (simp add: VideoStream_update_step_def split: uthread.splits)

lemma vs_run_fifo:
  "fst (vs_run cam evs s) @ vs_Q (snd (vs_run cam evs s))
     = vs_Q s @ map (\<lambda>n. snd (cam n)) [vs_stream s ..< vs_stream (snd (vs_run cam evs s))]
   \<and> vs_stream s \<le> vs_stream (snd (vs_run cam evs s))
   \<and> vs_frame (snd (vs_run cam evs s)) = vs_frame s"
proof (induction evs arbitrary: s)
  case Nil
  show ?case by simp
next
  case (Cons e evs)
  show ?case
  proof (cases e)
    case (Capture i)
    let ?s1 = "VideoStream_update_step cam i s"
    note IH = Cons.IH [of ?s1]
    from update_step_effect [of cam i s] show ?thesis
    proof (elim conjE disjE)
      assume "vs_Q ?s1 = vs_Q s" "vs_stream ?s1 = vs_stream s" "vs_frame ?s1 = vs_frame s"
      with IH show ?thesis using Capture by simp
    next
      assume a: "vs_Q ?s1 = vs_Q s @ [snd (cam (vs_stream s))]"
        "vs_stream ?s1 = Suc (vs_stream s)" "vs_frame ?s1 = vs_frame s"
      with IH have lt: "vs_stream s < vs_stream (snd (vs_run cam evs ?s1))" by simp
      from IH a show ?thesis
        using Capture by (simp add: upt_conv_Cons [OF lt])
    qed
  next
    case ReadTurn
    show ?thesis
    proof (cases "vs_Q s")
      case Nil
      with Cons.IH [of s] show ?thesis
        using ReadTurn by (simp add: VideoStream_read_step_def)
    next
      case (Cons v q)
      with Cons.IH [of "s\<lparr>vs_Q := q\<rparr>"] show ?thesis
        using ReadTurn by (simp add: VideoStream_read_step_def case_prod_beta)
    qed
  next
    case Stop
    with Cons.IH [of "VideoStream_stop s"] show ?thesis
      by (simp add: VideoStream_stop_def)
  qed
qed

lemma returned_prefix:
  assumes "rs @ q = map g [1 ..< m]" and "1 \<le> m"
  shows "rs = map g [1 ..< Suc (length rs)]"
proof -
  from assms(1) have "length rs + length q = m - 1"
    by (metis length_append length_map length_upt)
  with assms(2) have le: "1 + length rs \<le> m" by simp
  from assms(1) have "rs = take (length rs) (map g [1 ..< m])"
    by (metis append_eq_conv_conj)
  also have "\<dots> = map g (take (length rs) [1 ..< m])"
    by (simp add: take_map)
  also have "take (length rs) [1 ..< m] = [1 ..< 1 + length rs]"
    using le by (rule take_upt)
  finally show ?thesis by simp
qed

text \<open>
  Claim C4, amended. With a source that never fails, whatever the interleaving of the
  capture thread's steps, the turns of \<^verbatim>\<open>read\<close> and \<^verbatim>\<open>stop\<close>, the values returned by
  \<^verbatim>\<open>read\<close> followed by the values still queued are the frames of the source from its
  second one on, in production order, each once; so the \<open>k\<close>-th value returned is the
  \<open>k + 1\<close>-th frame produced. The first frame was read by the constructor into
  \<^verbatim>\<open>self.frame\<close> and is never queued.
\<close>

theorem read_returns_frames_after_first:
  assumes "\<forall>n. cam n = (True, Some (f n))"
  shows "fst (vs_run cam evs (VideoStream_start (VideoStream_init cam)))
           @ vs_Q (snd (vs_run cam evs (VideoStream_start (VideoStream_init cam))))
         = map (\<lambda>n. Some (f n))
             [1 ..< vs_stream (snd (vs_run cam evs (VideoStream_start (VideoStream_init cam))))]
       \<and> fst (vs_run cam evs (VideoStream_start (VideoStream_init cam)))
         = map (\<lambda>n. Some (f n))
             [1 ..< Suc (length (fst (vs_run cam evs (VideoStream_start (VideoStream_init cam)))))]
       \<and> vs_frame (snd (vs_run cam evs (VideoStream_start (VideoStream_init cam)))) = Some (f 0)"
proof -
  let ?s0 = "VideoStream_start (VideoStream_init cam)"
  let ?r = "vs_run cam evs ?s0"
  let ?g = "\<lambda>n. Some (f n)"
  have s0: "vs_Q ?s0 = []" "vs_stream ?s0 = 1" "vs_frame ?s0 = Some (f 0)"
    using assms by (simp_all add: VideoStream_start_def VideoStream_init_def)
  have g: "(\<lambda>n. snd (cam n)) = ?g"
    using assms by simp
  from vs_run_fifo [of cam evs ?s0]
  have all: "fst ?r @ vs_Q (snd ?r) = map ?g [1 ..< vs_stream (snd ?r)]"
    and fr0: "vs_frame (snd ?r) = Some (f 0)"
    by (simp_all add: s0 g)
  have "1 \<le> vs_stream (snd ?r)"
    using vs_run_fifo [of cam evs ?s0] by (simp add: s0)
  with all have "fst ?r = map ?g [1 ..< Suc (length (fst ?r))]"
    by (rule returned_prefix)
  with all fr0 show ?thesis by simp
qed

theorem read_returns_frames_after_first_witness:
  "fst (vs_run camera [Capture 0, Capture 0, Capture 0, Capture 0, ReadTurn, ReadTurn, ReadTurn]
          (VideoStream_start (VideoStream_init camera)))
     = [Some (fr 1), Some (fr 2)]
   \<and> vs_frame (snd (vs_run camera
          [Capture 0, Capture 0, Capture 0, Capture 0, ReadTurn, ReadTurn, ReadTurn]
          (VideoStream_start (VideoStream_init camera)))) = Some (fr 0)"
  using read_returns_frames_after_first
    [of camera fr "[Capture 0, Capture 0, Capture 0, Capture 0, ReadTurn, ReadTurn, ReadTurn]"]
  by (simp add: VideoStream_start_def VideoStream_init_def VideoStream_update_step_def
      VideoStream_read_step_def camera_def fr_def)

text \<open>
  Claim C4 as stated fails: the first value \<^verbatim>\<open>read\<close> returns is the second frame of
  the source, not the first.
\<close>

theorem first_frame_is_never_returned:
  "snd (camera 0) = Some (fr 0)
   \<and> fst (vs_run camera [Capture 0, Capture 0, ReadTurn]
            (VideoStream_start (VideoStream_init camera))) = [Some (fr 1)]
   \<and> fr 1 \<noteq> fr 0"
  by (simp add: VideoStream_start_def VideoStream_init_def VideoStream_update_step_def
      VideoStream_read_step_def camera_def fr_def)

text \<open>
  Claim C6, amended. A capture thread that is about to read the source puts the frame
  component of what the source returns in the queue, whatever the flag says, and goes back
  to the top of its loop: a failed read is neither retried nor reported, and its empty
  frame is queued.
\<close>

theorem capture_enqueues_every_result:
  assumes "i < length (vs_threads s)" and "vs_threads s ! i = CapRead"
  shows "vs_Q (VideoStream_update_step cam i s) = vs_Q s @ [snd (cam (vs_stream s))]
       \<and> vs_stream (VideoStream_update_step cam i s) = Suc (vs_stream s)
       \<and> vs_threads (VideoStream_update_step cam i s) = (vs_threads s)[i := CapLoop]"
  using assms by (simp add: VideoStream_update_step_def)

theorem capture_enqueues_every_result_witness:
  "0 < length (vs_threads (VideoStream_update_step flaky_camera 0
         (VideoStream_start (VideoStream_init flaky_camera))))
   \<and> vs_threads (VideoStream_update_step flaky_camera 0
         (VideoStream_start (VideoStream_init flaky_camera))) ! 0 = CapRead
   \<and> \<not> fst (flaky_camera 1)
   \<and> vs_Q (VideoStream_update_step flaky_camera 0
        (VideoStream_update_step flaky_camera 0
           (VideoStream_start (VideoStream_init flaky_camera)))) = [None]"
  using capture_enqueues_every_result
    [of 0 "VideoStream_update_step flaky_camera 0
             (VideoStream_start (VideoStream_init flaky_camera))" flaky_camera]
  by (simp add: VideoStream_start_def VideoStream_init_def VideoStream_update_step_def
      flaky_camera_def)

text \<open>
  Claim C6 as stated fails: when the second read of the source fails, the queue holds the
  empty frame of that read, and \<^verbatim>\<open>read\<close> returns it.
\<close>

theorem failed_capture_is_enqueued:
  "\<not> fst (flaky_camera 1)
   \<and> vs_Q (snd (vs_run flaky_camera [Capture 0, Capture 0]
        (VideoStream_start (VideoStream_init flaky_camera)))) = [None]
   \<and> fst (vs_run flaky_camera [Capture 0, Capture 0, ReadTurn]
        (VideoStream_start (VideoStream_init flaky_camera))) = [None]"
  by (simp add: VideoStream_start_def VideoStream_init_def VideoStream_update_step_def
      VideoStream_read_step_def flaky_camera_def)

end
